theory Spec2Isabelle
  imports Main "HOL-Library.AList"
begin

section \<open>The student-to-topic assignment solver (solver.py)\<close>

text \<open>
  The script validates a preference set (pydantic model \<^verbatim>\<open>Preferences\<close>), builds a
  CP-SAT model from it (\<^verbatim>\<open>build_model\<close>), hands the model to the OR-tools solver and
  reads the assignment off the solver's answer (\<^verbatim>\<open>solve_model\<close>).

  Python's \<^verbatim>\<open>int\<close> is \<^typ>\<open>int\<close>. A \<^verbatim>\<open>dict\<close> is an association list in insertion
  order; that its keys are pairwise different is the hypothesis \<open>distinct (map fst d)\<close>
  wherever a property depends on it. Exceptions are values of type \<open>error\<close>.
\<close>

subsection \<open>Constants and data\<close>

definition MAX_POINTS_PER_STUDENT :: int where
  "MAX_POINTS_PER_STUDENT = 9"

definition MAX_STUDENTS_PER_TOPIC :: int where
  "MAX_STUDENTS_PER_TOPIC = 2"

record Vote =
  topic_id :: int
  preference :: int

record Preferences =
  students :: "(string \<times> Vote list) list"
  topics_count :: int

text \<open>
  \<^verbatim>\<open>ValidationError\<close> is what pydantic raises when a validator fails; it carries the
  keys of \<^verbatim>\<open>students\<close> whose value was refused (pydantic collects every failure of
  the field before raising). \<^verbatim>\<open>ValueError\<close> is the exception \<^verbatim>\<open>solve_model\<close> raises, with
  its message. In Python the class \<^verbatim>\<open>ValidationError\<close> derives from \<^verbatim>\<open>ValueError\<close>; the
  second constructor stands for a \<^verbatim>\<open>ValueError\<close> that is not a \<^verbatim>\<open>ValidationError\<close>.
\<close>

datatype error = ValidationError "string list" | ValueError string

subsection \<open>Validation: \<^verbatim>\<open>Preferences.check_sum\<close>\<close>

text \<open>
  \<^verbatim>\<open>assert sum(v.preference for v in val) == MAX_POINTS_PER_STUDENT; return val\<close>.
  The validator is true when the assertion holds.
\<close>

definition check_sum :: "Vote list \<Rightarrow> bool" where
  "check_sum val \<longleftrightarrow> sum_list (map preference val) = MAX_POINTS_PER_STUDENT"

text \<open>
  Constructing \<^verbatim>\<open>Preferences(students=..., topics_count=...)\<close>: the validator runs on
  every value of the \<^verbatim>\<open>students\<close> dict (\<^verbatim>\<open>each_item=True\<close>); nothing else is checked.
\<close>

definition Preferences_init :: "(string \<times> Vote list) list \<Rightarrow> int \<Rightarrow> error + Preferences" where
  "Preferences_init studs n =
     (case filter (\<lambda>(student, val). \<not> check_sum val) studs of
        [] \<Rightarrow> Inr \<lparr>students = studs, topics_count = n\<rparr>
      | bad \<Rightarrow> Inl (ValidationError (map fst bad)))"

subsection \<open>The CP-SAT model\<close>

text \<open>
  A variable of the model is named by the place that creates it: \<open>Thesis s t\<close> is the
  Boolean variable \<^verbatim>\<open>student2thesis[s][t]\<close>, \<open>Joy s\<close> the integer variable
  \<^verbatim>\<open>student2joy[s]\<close>. A Boolean variable is an integer variable with domain 0..1.
\<close>

datatype var = Thesis string int | Joy string

text \<open>The three kinds of constraint \<^verbatim>\<open>build_model\<close> adds.\<close>

datatype constr =
    ExactlyOne "var list"
  | SumLe "var list" int
  | EqOnlyEnforceIf var int var

record CpModel =
  variables :: "(var \<times> int \<times> int) list"
  constraints :: "constr list"
  maximize :: "var list"

type_synonym valuation = "var \<Rightarrow> int"

definition BooleanValue :: "valuation \<Rightarrow> var \<Rightarrow> bool" where
  "BooleanValue val x \<longleftrightarrow> val x \<noteq> 0"

text \<open>
  When a valuation satisfies a constraint: \<^verbatim>\<open>AddExactlyOne(literals)\<close> asks for exactly
  one true literal, \<^verbatim>\<open>Add(sum(xs) <= k)\<close> bounds the sum, and
  \<^verbatim>\<open>Add(x == c).OnlyEnforceIf(lit)\<close> asks for \<open>x = c\<close> only when the literal is true.
  A solution of a model keeps every variable in its domain and satisfies every
  constraint; the objective is the sum \<^verbatim>\<open>Maximize\<close> was given.
\<close>

fun holds :: "valuation \<Rightarrow> constr \<Rightarrow> bool" where
  "holds val (ExactlyOne lits) = (length (filter (BooleanValue val) lits) = 1)"
| "holds val (SumLe xs k) = (sum_list (map val xs) \<le> k)"
| "holds val (EqOnlyEnforceIf x c lit) = (BooleanValue val lit \<longrightarrow> val x = c)"

definition in_domains :: "CpModel \<Rightarrow> valuation \<Rightarrow> bool" where
  "in_domains m val \<longleftrightarrow> list_all (\<lambda>(x, lo, hi). lo \<le> val x \<and> val x \<le> hi) (variables m)"

definition feasible :: "CpModel \<Rightarrow> valuation \<Rightarrow> bool" where
  "feasible m val \<longleftrightarrow> in_domains m val \<and> list_all (holds val) (constraints m)"

definition objective_value :: "CpModel \<Rightarrow> valuation \<Rightarrow> int" where
  "objective_value m val = sum_list (map val (maximize m))"

subsection \<open>\<^verbatim>\<open>build_model\<close>\<close>

text \<open>
  \<^verbatim>\<open>topic2pref = {v.topic_id: v.preference for v in votes}\<close>: a later vote for the same
  topic overwrites an earlier one.
\<close>

definition topic2pref :: "Vote list \<Rightarrow> (int \<rightharpoonup> int)" where
  "topic2pref votes = foldl (\<lambda>d v. d(topic_id v \<mapsto> preference v)) Map.empty votes"

text \<open>\<^verbatim>\<open>topic_value = topic2pref[topic] if topic in topic2pref else 0\<close>\<close>

definition topic_value :: "Vote list \<Rightarrow> int \<Rightarrow> int" where
  "topic_value votes topic = (case topic2pref votes topic of Some w \<Rightarrow> w | None \<Rightarrow> 0)"

text \<open>
  The loop that fills \<^verbatim>\<open>topic2students\<close>, a \<^verbatim>\<open>defaultdict(dict)\<close>:
  \<^verbatim>\<open>topic2students[topic][student] = var\<close> for every student and topic. Reading a
  missing key gives the empty dict, which the assignment then stores.
\<close>

definition topic2students_loop ::
    "(string \<times> (int \<times> var) list) list \<Rightarrow> (int \<times> (string \<times> var) list) list" where
  "topic2students_loop student2thesis =
     foldl (\<lambda>topic2students (student, topics).
              foldl (\<lambda>topic2students (topic, x).
                       AList.update topic
                         (AList.update student x
                            (case map_of topic2students topic of None \<Rightarrow> [] | Some d \<Rightarrow> d))
                         topic2students)
                topic2students topics)
       [] student2thesis"

text \<open>The function returns the model and \<^verbatim>\<open>student2thesis\<close>.\<close>

definition build_model :: "Preferences \<Rightarrow> CpModel \<times> (string \<times> (int \<times> var) list) list" where
  "build_model preferences =
     (let topics = [0 .. topics_count preferences - 1];
          student2thesis =
            map (\<lambda>(student, votes). (student, map (\<lambda>topic. (topic, Thesis student topic)) topics))
              (students preferences);
          topic2students = topic2students_loop student2thesis;
          student2joy = map (\<lambda>(student, votes). (student, Joy student)) (students preferences);
          model = \<lparr>
            variables =
              concat (map (\<lambda>(student, ts). map (\<lambda>(topic, x). (x, 0, 1)) ts) student2thesis)
              @ map (\<lambda>(student, joy). (joy, 0, MAX_POINTS_PER_STUDENT)) student2joy,
            constraints =
              map (\<lambda>(student, ts). ExactlyOne (map snd ts)) student2thesis
              @ map (\<lambda>(topic, ss). SumLe (map snd ss) MAX_STUDENTS_PER_TOPIC) topic2students
              @ concat (map (\<lambda>(student, votes).
                    map (\<lambda>topic. EqOnlyEnforceIf (Joy student) (topic_value votes topic)
                                    (Thesis student topic)) topics)
                  (students preferences)),
            maximize = map snd student2joy \<rparr>
      in (model, student2thesis))"

subsection \<open>The solver and \<^verbatim>\<open>solve_model\<close>\<close>

datatype CpSolverStatus = UNKNOWN | MODEL_INVALID | FEASIBLE | INFEASIBLE | OPTIMAL

type_synonym CpSolver = "CpModel \<Rightarrow> CpSolverStatus \<times> valuation"

text \<open>
  \<^verbatim>\<open>CpSolver.Solve\<close> belongs to OR-tools, not to the script. It is a parameter of
  \<open>solve_model\<close>, and what the script relies on is its documented behaviour when no limit
  is set: status \<^verbatim>\<open>OPTIMAL\<close> with a feasible solution of greatest objective value when
  the model has a solution, status \<^verbatim>\<open>INFEASIBLE\<close> when it has none.
\<close>

definition Solve_contract :: "CpSolver \<Rightarrow> CpModel \<Rightarrow> bool" where
  "Solve_contract solver m \<longleftrightarrow>
     (case solver m of (status, val) \<Rightarrow>
        if (\<exists>v. feasible m v)
        then status = OPTIMAL \<and> feasible m val
             \<and> (\<forall>v. feasible m v \<longrightarrow> objective_value m v \<le> objective_value m val)
        else status = INFEASIBLE)"

text \<open>
  The two nested loops of \<^verbatim>\<open>solve_model\<close>; \<^verbatim>\<open>solution[student] = topic\<close> is the dict
  update: a key already there keeps its place and takes the new value.
\<close>

definition read_solution ::
    "valuation \<Rightarrow> (string \<times> (int \<times> var) list) list \<Rightarrow> (string \<times> int) list" where
  "read_solution val student2topic =
     foldl (\<lambda>solution (student, topics).
              foldl (\<lambda>solution (topic, x).
                       if BooleanValue val x then AList.update student topic solution
                       else solution)
                solution topics)
       [] student2topic"

definition solve_model ::
    "CpSolver \<Rightarrow> CpModel \<Rightarrow> (string \<times> (int \<times> var) list) list \<Rightarrow> error + (string \<times> int) list" where
  "solve_model solver model student2topic =
     (case solver model of (status, val) \<Rightarrow>
        if status \<noteq> OPTIMAL then Inl (ValueError ''Optimal solution not found'')
        else Inr (read_solution val student2topic))"

text \<open>\<^verbatim>\<open>model, vars = build_model(preferences); solve_model(model, vars)\<close>, as \<^verbatim>\<open>main\<close> does.\<close>

definition solve :: "CpSolver \<Rightarrow> Preferences \<Rightarrow> error + (string \<times> int) list" where
  "solve solver preferences =
     (case build_model preferences of (model, vars) \<Rightarrow> solve_model solver model vars)"

subsection \<open>A solver that meets the contract\<close>

text \<open>
  Exhaustive search: every valuation of the declared variables inside their domains is
  tried, the feasible ones are kept, and one of greatest objective value is returned. It
  shows that the contract can be met and lets the properties below be run on examples.
\<close>

fun valuations :: "(var \<times> int \<times> int) list \<Rightarrow> valuation list" where
  "valuations [] = [\<lambda>x. 0]"
| "valuations ((x, lo, hi) # vs) =
     concat (map (\<lambda>val. map (\<lambda>i. val(x := i)) [lo .. hi]) (valuations vs))"

definition better :: "CpModel \<Rightarrow> valuation \<Rightarrow> valuation \<Rightarrow> valuation" where
  "better m best val = (if objective_value m best < objective_value m val then val else best)"

definition exhaustive_solver :: CpSolver where
  "exhaustive_solver m =
     (case filter (feasible m) (valuations (variables m)) of
        [] \<Rightarrow> (INFEASIBLE, \<lambda>x. 0)
      | val # vals \<Rightarrow> (OPTIMAL, foldl (better m) val vals))"

text \<open>
  A model built through the \<^verbatim>\<open>CpModel\<close> interface only mentions variables it has
  created.
\<close>

fun constr_vars :: "constr \<Rightarrow> var list" where
  "constr_vars (ExactlyOne lits) = lits"
| "constr_vars (SumLe xs k) = xs"
| "constr_vars (EqOnlyEnforceIf x c lit) = [x, lit]"

definition well_formed :: "CpModel \<Rightarrow> bool" where
  "well_formed m \<longleftrightarrow>
     (\<forall>c \<in> set (constraints m). set (constr_vars c) \<subseteq> fst ` set (variables m))
     \<and> set (maximize m) \<subseteq> fst ` set (variables m)"

subsection \<open>Notions the properties are stated with\<close>

text \<open>A vote whose topic id is one of the ids \<open>0, \<dots>, n - 1\<close> of \<^verbatim>\<open>range(n)\<close>.\<close>

definition in_range :: "int \<Rightarrow> Vote \<Rightarrow> bool" where
  "in_range n v \<longleftrightarrow> 0 \<le> topic_id v \<and> topic_id v < n"

text \<open>
  An assignment gives topics to students: a map from student keys to topic ids. It is
  feasible for a preference set when every student has a topic among \<^verbatim>\<open>range(topics_count)\<close>
  and no topic is given to more than two students.
\<close>

definition feasible_assignment :: "Preferences \<Rightarrow> (string \<rightharpoonup> int) \<Rightarrow> bool" where
  "feasible_assignment p a \<longleftrightarrow>
     list_all (\<lambda>(s, votes). case a s of Some t \<Rightarrow> 0 \<le> t \<and> t < topics_count p | None \<Rightarrow> False)
       (students p)
   \<and> list_all (\<lambda>t. length (filter (\<lambda>(s, votes). a s = Some t) (students p)) \<le> 2)
       [0 .. topics_count p - 1]"

text \<open>
  The total reward of an assignment: for each student the value \<^verbatim>\<open>build_model\<close> attaches
  to the student's topic, which is the weight voted for it, or 0 without a vote.
\<close>

definition total_reward :: "Preferences \<Rightarrow> (string \<rightharpoonup> int) \<Rightarrow> int" where
  "total_reward p a =
     sum_list (map (\<lambda>(s, votes). case a s of Some t \<Rightarrow> topic_value votes t | None \<Rightarrow> 0) (students p))"

text \<open>
  What makes a preference set valid: the keys of the dict are pairwise different, every
  vote list passed \<^verbatim>\<open>check_sum\<close>, and, as the data model requires of a weight, no weight
  is negative. Only the second is checked by the constructor.
\<close>

definition sums_checked :: "Preferences \<Rightarrow> bool" where
  "sums_checked p \<longleftrightarrow> list_all (\<lambda>(s, votes). check_sum votes) (students p)"

definition nonneg_weights :: "Preferences \<Rightarrow> bool" where
  "nonneg_weights p \<longleftrightarrow> (\<forall>(s, votes) \<in> set (students p). \<forall>v \<in> set votes. 0 \<le> preference v)"

definition valid_preferences :: "Preferences \<Rightarrow> bool" where
  "valid_preferences p \<longleftrightarrow>
     distinct (map fst (students p)) \<and> sums_checked p \<and> nonneg_weights p"




subsection \<open>Auxiliary definitions for the proofs\<close>

text \<open>The topic the read-out loop leaves in the dict for a student.\<close>

definition chosen :: "valuation \<Rightarrow> int list \<Rightarrow> string \<Rightarrow> int" where
  "chosen val T s = last (filter (\<lambda>t. BooleanValue val (Thesis s t)) T)"

text \<open>The valuation of the model's variables that encodes an assignment.\<close>

fun valuation_of :: "Preferences \<Rightarrow> (string \<rightharpoonup> int) \<Rightarrow> valuation" where
  "valuation_of p a (Thesis s t) = (if a s = Some t then 1 else 0)"
| "valuation_of p a (Joy s) =
     (case map_of (students p) s of
        None \<Rightarrow> 0
      | Some votes \<Rightarrow> (case a s of None \<Rightarrow> 0 | Some t \<Rightarrow> topic_value votes t))"

text \<open>Every reward the model can ask \<^verbatim>\<open>student2joy\<close> to take lies in its domain 0..9.\<close>

definition weights_in_domain :: "Preferences \<Rightarrow> bool" where
  "weights_in_domain p \<longleftrightarrow>
     (\<forall>(s, votes) \<in> set (students p). \<forall>t \<in> set [0 .. topics_count p - 1].
        0 \<le> topic_value votes t \<and> topic_value votes t \<le> 9)"

text \<open>Two students per topic, in the order of the keys, starting with topic \<open>t\<close>.\<close>

fun pair_up :: "string list \<Rightarrow> int \<Rightarrow> (string \<rightharpoonup> int)" where
  "pair_up [] t = Map.empty"
| "pair_up [s] t = [s \<mapsto> t]"
| "pair_up (s # s' # ss) t = (pair_up ss (t + 1))(s \<mapsto> t, s' \<mapsto> t)"

subsection \<open>Example inputs\<close>

definition one_student :: Preferences where
  "one_student = \<lparr>students = [(''a'', [\<lparr>topic_id = 0, preference = 3\<rparr>, \<lparr>topic_id = 1, preference = 6\<rparr>])],
                   topics_count = 2\<rparr>"

definition two_students :: Preferences where
  "two_students = \<lparr>students = [(''a'', [\<lparr>topic_id = 0, preference = 9\<rparr>]),
                                (''b'', [\<lparr>topic_id = 0, preference = 9\<rparr>])],
                    topics_count = 1\<rparr>"

definition three_students :: Preferences where
  "three_students = \<lparr>students = [(''a'', [\<lparr>topic_id = 0, preference = 9\<rparr>]),
                                  (''b'', [\<lparr>topic_id = 0, preference = 9\<rparr>]),
                                  (''c'', [\<lparr>topic_id = 0, preference = 9\<rparr>])],
                      topics_count = 1\<rparr>"


definition blocked_student :: Preferences where
  "blocked_student = \<lparr>students = [(''a'', [\<lparr>topic_id = 0, preference = 12\<rparr>, \<lparr>topic_id = 1, preference = - 3\<rparr>])],
                       topics_count = 2\<rparr>"

section \<open>Lists and dicts\<close>

lemma filter_eq_singleton:
  "distinct xs \<Longrightarrow> x \<in> set xs \<Longrightarrow> length (filter (\<lambda>y. x = y) xs) = 1"
  by (induction xs) (auto simp: filter_empty_conv)

lemma sum_list_indicator:
  "sum_list (map (\<lambda>x. if P x then 1 else 0) xs) = int (length (filter P xs))"
  by (induction xs) auto

lemma count_indicator:
  "sum_list (map (\<lambda>x. if P x then 1 else 0) xs) = length (filter P xs)"
  by (induction xs) auto

lemma member_le_sum_list_int:
  fixes xs :: "int list"
  assumes "\<forall>y \<in> set xs. 0 \<le> y" "x \<in> set xs"
  shows "x \<le> sum_list xs"
  using assms
proof (induction xs)
  case Nil
  then show ?case by simp
next
  case (Cons y ys)
  then have "0 \<le> sum_list ys" by (simp add: sum_list_nonneg)
  with Cons show ?case by auto
qed

lemma map_of_map_key:
  "(s, votes) \<in> set S \<Longrightarrow> map_of (map (\<lambda>(s, votes). (s, f s)) S) s = Some (f s)"
  by (induction S) auto

lemma update_fresh: "k \<notin> fst ` set al \<Longrightarrow> AList.update k v al = al @ [(k, v)]"
  by (induction al) auto

lemma length_by_classes:
  assumes "distinct T" and "\<forall>x \<in> set xs. \<exists>t \<in> set T. f x = Some t"
  shows "length xs = sum_list (map (\<lambda>t. length (filter (\<lambda>x. f x = Some t) xs)) T)"
  using assms(2)
proof (induction xs)
  case Nil
  then show ?case by simp
next
  case (Cons x xs)
  from Cons.prems obtain t0 where t0: "t0 \<in> set T" "f x = Some t0" by auto
  have "sum_list (map (\<lambda>t. length (filter (\<lambda>x. f x = Some t) (x # xs))) T)
      = sum_list (map (\<lambda>t. (if t0 = t then 1 else 0) + length (filter (\<lambda>x. f x = Some t) xs)) T)"
    by (intro arg_cong[where f = sum_list] map_cong) (auto simp: t0(2))
  also have "\<dots> = sum_list (map (\<lambda>t. if t0 = t then 1 else 0) T)
      + sum_list (map (\<lambda>t. length (filter (\<lambda>x. f x = Some t) xs)) T)"
    by (simp add: sum_list_addf)
  also have "sum_list (map (\<lambda>t. if t0 = t then 1 else 0) T) = (1::nat)"
    using filter_eq_singleton[OF assms(1) t0(1)] by (simp add: count_indicator)
  finally show ?case using Cons by simp
qed

lemma update_tabulated:
  "distinct T \<Longrightarrow> k \<in> set T \<Longrightarrow>
   AList.update k v (map (\<lambda>u. (u, h u)) T) = map (\<lambda>u. (u, if u = k then v else h u)) T"
  by (induction T) auto

lemma map_of_tabulated: "k \<in> set T \<Longrightarrow> map_of (map (\<lambda>u. (u, h u)) T) k = Some (h k)"
  by (induction T) auto

section \<open>Validation\<close>

lemma Preferences_init_ok:
  "list_all (\<lambda>(student, val). check_sum val) studs \<Longrightarrow>
   Preferences_init studs n = Inr \<lparr>students = studs, topics_count = n\<rparr>"
proof -
  assume "list_all (\<lambda>(student, val). check_sum val) studs"
  then have "filter (\<lambda>(student, val). \<not> check_sum val) studs = []"
    by (auto simp: filter_empty_conv list_all_iff)
  then show ?thesis by (simp add: Preferences_init_def)
qed

lemma Preferences_init_bad:
  "\<not> list_all (\<lambda>(student, val). check_sum val) studs \<Longrightarrow>
   Preferences_init studs n =
     Inl (ValidationError (map fst (filter (\<lambda>(student, val). \<not> check_sum val) studs)))
   \<and> filter (\<lambda>(student, val). \<not> check_sum val) studs \<noteq> []"
proof -
  assume "\<not> list_all (\<lambda>(student, val). check_sum val) studs"
  then have ne: "filter (\<lambda>(student, val). \<not> check_sum val) studs \<noteq> []"
    by (auto simp: filter_empty_conv list_all_iff)
  then show ?thesis by (auto simp add: Preferences_init_def split: list.splits)
qed

lemma sums_9_check_sum:
  "(\<forall>(student, val) \<in> set studs. sum_list (map preference val) = 9)
     \<longleftrightarrow> list_all (\<lambda>(student, val). check_sum val) studs"
  by (auto simp: list_all_iff check_sum_def MAX_POINTS_PER_STUDENT_def)

lemma sums_checked_init:
  "sums_checked p \<Longrightarrow> Preferences_init (students p) (topics_count p) = Inr p"
  by (simp add: sums_checked_def Preferences_init_ok)

section \<open>The value of a topic for a student\<close>

lemma topic2pref_foldl:
  "foldl (\<lambda>d v. d(topic_id v \<mapsto> preference v)) d0 votes t =
     (case filter (\<lambda>v. topic_id v = t) votes of [] \<Rightarrow> d0 t | vs \<Rightarrow> Some (preference (last vs)))"
  by (induction votes arbitrary: d0) (auto split: list.splits)

lemma topic2pref_last:
  "topic2pref votes t =
     (case filter (\<lambda>v. topic_id v = t) votes of [] \<Rightarrow> None | vs \<Rightarrow> Some (preference (last vs)))"
  by (simp add: topic2pref_def topic2pref_foldl)

lemma topic_value_last:
  "topic_value votes t =
     (case filter (\<lambda>v. topic_id v = t) votes of [] \<Rightarrow> 0 | vs \<Rightarrow> preference (last vs))"
  by (simp add: topic_value_def topic2pref_last split: list.splits)



lemma topic_value_in_range:
  assumes "0 \<le> t" "t < n"
  shows "topic_value (filter (in_range n) votes) t = topic_value votes t"
proof -
  have "filter (\<lambda>v. topic_id v = t) (filter (in_range n) votes) = filter (\<lambda>v. topic_id v = t) votes"
    using assms by (auto simp: in_range_def intro: filter_cong)
  then show ?thesis by (simp only: topic_value_last)
qed

lemma topic_value_bounds:
  assumes "check_sum votes" and "\<forall>v \<in> set votes. 0 \<le> preference v"
  shows "0 \<le> topic_value votes t \<and> topic_value votes t \<le> 9"
proof (cases "filter (\<lambda>v. topic_id v = t) votes")
  case Nil
  then show ?thesis by (simp add: topic_value_last)
next
  case (Cons v vs)
  let ?l = "last (v # vs)"
  have "?l \<in> set (filter (\<lambda>v. topic_id v = t) votes)"
    unfolding Cons by (rule last_in_set) simp
  then have mem: "?l \<in> set votes" by simp
  then have "preference ?l \<in> set (map preference votes)" by simp
  with assms(2) have "preference ?l \<le> sum_list (map preference votes)"
    by (intro member_le_sum_list_int) auto
  with assms mem Cons show ?thesis
    by (simp add: topic_value_last check_sum_def MAX_POINTS_PER_STUDENT_def)
qed

lemma valid_weights_in_domain:
  assumes "sums_checked p" "nonneg_weights p"
  shows "weights_in_domain p"
  unfolding weights_in_domain_def
proof safe
  fix s votes t assume sv: "(s, votes) \<in> set (students p)"
  from assms sv have "check_sum votes" "\<forall>v \<in> set votes. 0 \<le> preference v"
    unfolding sums_checked_def nonneg_weights_def list_all_iff by auto
  from topic_value_bounds[OF this]
  show "0 \<le> topic_value votes t" "topic_value votes t \<le> 9" by simp_all
qed



section \<open>The dict \<^verbatim>\<open>topic2students\<close>\<close>

text \<open>One student's pass over the topics, when every topic already has its dict.\<close>

lemma topic_pass:
  assumes "distinct T" and "set ts \<subseteq> set T" and "\<And>t. t \<in> set ts \<Longrightarrow> s \<notin> fst ` set (g t)"
    and "distinct ts"
  shows "foldl (\<lambda>topic2students (topic, x).
                 AList.update topic
                   (AList.update s x
                      (case map_of topic2students topic of None \<Rightarrow> [] | Some d \<Rightarrow> d))
                   topic2students)
           (map (\<lambda>t. (t, g t)) T) (map (\<lambda>t. (t, Thesis s t)) ts)
         = map (\<lambda>t. (t, if t \<in> set ts then g t @ [(s, Thesis s t)] else g t)) T"
  using assms(2,3,4)
proof (induction ts arbitrary: g)
  case Nil
  then show ?case by simp
next
  case (Cons t ts)
  let ?g = "\<lambda>u. if u = t then g t @ [(s, Thesis s t)] else g u"
  from Cons.prems have t: "t \<in> set T" "t \<notin> set ts" by auto
  have step: "AList.update t (AList.update s (Thesis s t)
        (case map_of (map (\<lambda>t. (t, g t)) T) t of None \<Rightarrow> [] | Some d \<Rightarrow> d)) (map (\<lambda>t. (t, g t)) T)
      = map (\<lambda>u. (u, ?g u)) T"
    using t(1) Cons.prems(2)[of t]
    by (simp add: map_of_tabulated update_fresh update_tabulated[OF assms(1)])
  have "foldl (\<lambda>topic2students (topic, x).
                 AList.update topic
                   (AList.update s x
                      (case map_of topic2students topic of None \<Rightarrow> [] | Some d \<Rightarrow> d))
                   topic2students)
           (map (\<lambda>u. (u, ?g u)) T) (map (\<lambda>t. (t, Thesis s t)) ts)
      = map (\<lambda>u. (u, if u \<in> set ts then ?g u @ [(s, Thesis s u)] else ?g u)) T"
  proof (rule Cons.IH)
    show "set ts \<subseteq> set T" using Cons.prems(1) by simp
    show "distinct ts" using Cons.prems(3) by simp
    fix u assume "u \<in> set ts"
    with t(2) Cons.prems(2)[of u] show "s \<notin> fst ` set (?g u)" by auto
  qed
  also have "\<dots> = map (\<lambda>u. (u, if u \<in> set (t # ts) then g u @ [(s, Thesis s u)] else g u)) T"
    using t(2) by (intro map_cong) auto
  finally show ?case by (simp add: step)
qed

text \<open>The first student's pass creates the dicts.\<close>

lemma first_pass:
  assumes "distinct (seen @ ts)"
  shows "foldl (\<lambda>topic2students (topic, x).
                 AList.update topic
                   (AList.update s x
                      (case map_of topic2students topic of None \<Rightarrow> [] | Some d \<Rightarrow> d))
                   topic2students)
           (map (\<lambda>t. (t, [(s, Thesis s t)])) seen) (map (\<lambda>t. (t, Thesis s t)) ts)
         = map (\<lambda>t. (t, [(s, Thesis s t)])) (seen @ ts)"
  using assms
proof (induction ts arbitrary: seen)
  case Nil
  then show ?case by simp
next
  case (Cons t ts)
  from Cons.prems have fresh: "t \<notin> set seen" by auto
  then have none: "map_of (map (\<lambda>t. (t, [(s, Thesis s t)])) seen) t = None"
    by (simp add: map_of_eq_None_iff image_image)
  from fresh have "t \<notin> fst ` set (map (\<lambda>t. (t, [(s, Thesis s t)])) seen)"
    by (simp add: image_image)
  then have step: "AList.update t (AList.update s (Thesis s t)
        (case map_of (map (\<lambda>t. (t, [(s, Thesis s t)])) seen) t of None \<Rightarrow> [] | Some d \<Rightarrow> d))
        (map (\<lambda>t. (t, [(s, Thesis s t)])) seen)
      = map (\<lambda>t. (t, [(s, Thesis s t)])) (seen @ [t])"
    by (simp add: none update_fresh)
  from Cons.prems have "distinct ((seen @ [t]) @ ts)" by simp
  from Cons.IH[OF this] show ?case by (simp add: step)
qed

lemma topic2students_closed_aux:
  assumes "distinct T" and "distinct (map fst (S0 @ S))" and "S0 \<noteq> []"
  shows "foldl (\<lambda>topic2students (student, topics).
              foldl (\<lambda>topic2students (topic, x).
                       AList.update topic
                         (AList.update student x
                            (case map_of topic2students topic of None \<Rightarrow> [] | Some d \<Rightarrow> d))
                         topic2students)
                topic2students topics)
       (map (\<lambda>t. (t, map (\<lambda>(s, votes). (s, Thesis s t)) S0)) T)
       (map (\<lambda>(s, votes). (s, map (\<lambda>t. (t, Thesis s t)) T)) S)
     = map (\<lambda>t. (t, map (\<lambda>(s, votes). (s, Thesis s t)) (S0 @ S))) T"
  using assms(2,3)
proof (induction S arbitrary: S0)
  case Nil
  then show ?case by simp
next
  case (Cons sv S)
  obtain s votes where sv: "sv = (s, votes)" by (cases sv)
  have fresh: "s \<notin> fst ` set (map (\<lambda>(s, votes). (s, Thesis s t)) S0)" for t
    using Cons.prems(1) by (auto simp: sv image_iff)
  have pass: "foldl (\<lambda>topic2students (topic, x).
                 AList.update topic
                   (AList.update s x
                      (case map_of topic2students topic of None \<Rightarrow> [] | Some d \<Rightarrow> d))
                   topic2students)
           (map (\<lambda>t. (t, map (\<lambda>(s, votes). (s, Thesis s t)) S0)) T) (map (\<lambda>t. (t, Thesis s t)) T)
      = map (\<lambda>t. (t, map (\<lambda>(s, votes). (s, Thesis s t)) (S0 @ [sv]))) T"
    using topic_pass[where s = s and ts = T and T = T
        and g = "\<lambda>t. map (\<lambda>(s, votes). (s, Thesis s t)) S0", OF assms(1) subset_refl fresh assms(1)]
    by (simp add: sv)
  from Cons.prems have "distinct (map fst ((S0 @ [sv]) @ S))" "S0 @ [sv] \<noteq> []" by simp_all
  from Cons.IH[OF this] show ?case by (simp add: sv pass)
qed

text \<open>
  The loop transposes \<^verbatim>\<open>student2thesis\<close>: every topic gets the dict of all students,
  in the order of the students; without students no topic gets a dict.
\<close>

lemma topic2students_closed:
  assumes "distinct T" and "distinct (map fst S)"
  shows "topic2students_loop (map (\<lambda>(s, votes). (s, map (\<lambda>t. (t, Thesis s t)) T)) S)
     = (if S = [] then [] else map (\<lambda>t. (t, map (\<lambda>(s, votes). (s, Thesis s t)) S)) T)"
proof (cases S)
  case Nil
  then show ?thesis by (simp add: topic2students_loop_def)
next
  case (Cons sv S')
  obtain s votes where sv: "sv = (s, votes)" by (cases sv)
  have first: "foldl (\<lambda>topic2students (topic, x).
                 AList.update topic
                   (AList.update s x
                      (case map_of topic2students topic of None \<Rightarrow> [] | Some d \<Rightarrow> d))
                   topic2students)
           [] (map (\<lambda>t. (t, Thesis s t)) T)
      = map (\<lambda>t. (t, map (\<lambda>(s, votes). (s, Thesis s t)) [sv])) T"
    using first_pass[of "[]" T s] assms(1) by (simp add: sv)
  from assms(2) Cons have "distinct (map fst ([sv] @ S'))" by simp
  from topic2students_closed_aux[OF assms(1) this]
  show ?thesis by (simp add: Cons topic2students_loop_def sv first)
qed

section \<open>The model \<^verbatim>\<open>build_model\<close> builds\<close>

lemma snd_build_model:
  "snd (build_model p) =
     map (\<lambda>(s, votes). (s, map (\<lambda>t. (t, Thesis s t)) [0 .. topics_count p - 1])) (students p)"
  by (simp add: build_model_def Let_def)

lemma variables_build_model:
  "variables (fst (build_model p)) =
     concat (map (\<lambda>(s, votes). map (\<lambda>t. (Thesis s t, 0, 1)) [0 .. topics_count p - 1]) (students p))
     @ map (\<lambda>(s, votes). (Joy s, 0, 9)) (students p)"
  by (simp add: build_model_def Let_def comp_def case_prod_unfold MAX_POINTS_PER_STUDENT_def)

lemma constraints_build_model:
  assumes "distinct (map fst (students p))"
  shows "constraints (fst (build_model p)) =
     map (\<lambda>(s, votes). ExactlyOne (map (Thesis s) [0 .. topics_count p - 1])) (students p)
     @ (if students p = [] then []
        else map (\<lambda>t. SumLe (map (\<lambda>(s, votes). Thesis s t) (students p)) 2) [0 .. topics_count p - 1])
     @ concat (map (\<lambda>(s, votes).
          map (\<lambda>t. EqOnlyEnforceIf (Joy s) (topic_value votes t) (Thesis s t)) [0 .. topics_count p - 1])
        (students p))"
proof -
  have "topic2students_loop
          (map (\<lambda>(s, votes). (s, map (\<lambda>t. (t, Thesis s t)) [0 .. topics_count p - 1])) (students p))
      = (if students p = [] then []
         else map (\<lambda>t. (t, map (\<lambda>(s, votes). (s, Thesis s t)) (students p))) [0 .. topics_count p - 1])"
    by (rule topic2students_closed[OF distinct_upto assms])
  then show ?thesis
    by (simp add: build_model_def Let_def comp_def case_prod_unfold MAX_STUDENTS_PER_TOPIC_def)
qed

lemma maximize_build_model:
  "maximize (fst (build_model p)) = map (\<lambda>(s, votes). Joy s) (students p)"
  by (simp add: build_model_def Let_def comp_def case_prod_unfold)

lemma objective_build_model:
  "objective_value (fst (build_model p)) val = sum_list (map (\<lambda>(s, votes). val (Joy s)) (students p))"
  by (simp add: build_model_def Let_def objective_value_def comp_def case_prod_unfold)


lemma in_domains_build_model:
  "in_domains (fst (build_model p)) val \<longleftrightarrow>
     (\<forall>(s, votes) \<in> set (students p). \<forall>t \<in> set [0 .. topics_count p - 1].
         0 \<le> val (Thesis s t) \<and> val (Thesis s t) \<le> 1)
   \<and> (\<forall>(s, votes) \<in> set (students p). 0 \<le> val (Joy s) \<and> val (Joy s) \<le> 9)"
  unfolding in_domains_def variables_build_model list_all_append
  by (simp add: list_all_iff case_prod_unfold ball_UN del: set_upto)

lemma holds_build_model:
  assumes dist: "distinct (map fst (students p))"
  shows "list_all (holds val) (constraints (fst (build_model p))) \<longleftrightarrow>
     (\<forall>(s, votes) \<in> set (students p).
         length (filter (\<lambda>t. BooleanValue val (Thesis s t)) [0 .. topics_count p - 1]) = 1)
   \<and> (\<forall>t \<in> set [0 .. topics_count p - 1].
         sum_list (map (\<lambda>(s, votes). val (Thesis s t)) (students p)) \<le> 2)
   \<and> (\<forall>(s, votes) \<in> set (students p). \<forall>t \<in> set [0 .. topics_count p - 1].
         BooleanValue val (Thesis s t) \<longrightarrow> val (Joy s) = topic_value votes t)"
proof (cases "students p = []")
  case True
  then show ?thesis by (simp add: constraints_build_model[OF dist])
next
  case False
  then show ?thesis
    unfolding constraints_build_model[OF dist] list_all_append
    by (simp add: list_all_iff length_filter_map comp_def case_prod_unfold ball_UN del: set_upto)
qed

text \<open>The solutions of the built model, spelled out.\<close>

lemma feasible_build_model:
  assumes dist: "distinct (map fst (students p))"
  shows "feasible (fst (build_model p)) val \<longleftrightarrow>
     (\<forall>(s, votes) \<in> set (students p). \<forall>t \<in> set [0 .. topics_count p - 1].
         0 \<le> val (Thesis s t) \<and> val (Thesis s t) \<le> 1)
   \<and> (\<forall>(s, votes) \<in> set (students p). 0 \<le> val (Joy s) \<and> val (Joy s) \<le> 9)
   \<and> (\<forall>(s, votes) \<in> set (students p).
         length (filter (\<lambda>t. BooleanValue val (Thesis s t)) [0 .. topics_count p - 1]) = 1)
   \<and> (\<forall>t \<in> set [0 .. topics_count p - 1].
         sum_list (map (\<lambda>(s, votes). val (Thesis s t)) (students p)) \<le> 2)
   \<and> (\<forall>(s, votes) \<in> set (students p). \<forall>t \<in> set [0 .. topics_count p - 1].
         BooleanValue val (Thesis s t) \<longrightarrow> val (Joy s) = topic_value votes t)"
  unfolding feasible_def in_domains_build_model holds_build_model[OF dist] by blast

lemma build_model_in_range:
  "fst (build_model \<lparr>students = map (\<lambda>(s, votes). (s, filter (in_range n) votes)) studs, topics_count = n\<rparr>)
   = fst (build_model \<lparr>students = studs, topics_count = n\<rparr>)"
proof -
  have eq: "map (\<lambda>t. EqOnlyEnforceIf (Joy s) (topic_value (filter (in_range n) votes) t) (Thesis s t)) [0 .. n - 1]
      = map (\<lambda>t. EqOnlyEnforceIf (Joy s) (topic_value votes t) (Thesis s t)) [0 .. n - 1]" for s votes
    by (rule map_cong) (simp_all add: topic_value_in_range)
  show ?thesis
    by (simp add: build_model_def Let_def comp_def case_prod_unfold eq)
qed


lemma declared_build_model:
  assumes "(s, votes) \<in> set (students p)"
  shows "Joy s \<in> fst ` set (variables (fst (build_model p)))"
    and "t \<in> set [0 .. topics_count p - 1] \<Longrightarrow>
           Thesis s t \<in> fst ` set (variables (fst (build_model p)))"
  using assms unfolding variables_build_model by (force simp del: set_upto)+

lemma well_formed_build_model:
  assumes dist: "distinct (map fst (students p))"
  shows "well_formed (fst (build_model p))"
  unfolding well_formed_def
proof (intro conjI ballI)
  fix c assume "c \<in> set (constraints (fst (build_model p)))"
  then show "set (constr_vars c) \<subseteq> fst ` set (variables (fst (build_model p)))"
    unfolding constraints_build_model[OF dist]
    by (auto simp: declared_build_model split: if_splits simp del: set_upto)
next
  show "set (maximize (fst (build_model p))) \<subseteq> fst ` set (variables (fst (build_model p)))"
    unfolding maximize_build_model by (auto simp: declared_build_model)
qed

section \<open>Exhaustive search meets the contract\<close>

lemma holds_agree:
  assumes "\<forall>x \<in> set (constr_vars c). v x = v' x"
  shows "holds v c = holds v' c"
proof (cases c)
  case (ExactlyOne lits)
  with assms have "filter (BooleanValue v) lits = filter (BooleanValue v') lits"
    by (auto simp: BooleanValue_def intro: filter_cong)
  with ExactlyOne show ?thesis by simp
next
  case (SumLe xs k)
  from assms SumLe have "map v xs = map v' xs" by (intro map_cong) simp_all
  then have "sum_list (map v xs) = sum_list (map v' xs)" by (rule arg_cong)
  with SumLe show ?thesis by (simp only: holds.simps)
next
  case (EqOnlyEnforceIf x k lit)
  with assms show ?thesis by (simp add: BooleanValue_def)
qed

lemma feasible_agree:
  assumes wf: "well_formed m" and ag: "\<forall>x \<in> fst ` set (variables m). v x = v' x"
  shows "feasible m v = feasible m v'" and "objective_value m v = objective_value m v'"
proof -
  have "in_domains m v = in_domains m v'"
    unfolding in_domains_def list_all_iff using ag by (intro ball_cong) force+
  moreover have "list_all (holds v) (constraints m) = list_all (holds v') (constraints m)"
    unfolding list_all_iff
  proof (intro ball_cong refl holds_agree ballI)
    fix c x assume "c \<in> set (constraints m)" "x \<in> set (constr_vars c)"
    with wf have "x \<in> fst ` set (variables m)" unfolding well_formed_def by blast
    with ag show "v x = v' x" by blast
  qed
  ultimately show "feasible m v = feasible m v'" by (simp add: feasible_def)
  from wf ag have "map v (maximize m) = map v' (maximize m)"
    unfolding well_formed_def by (intro map_cong) auto
  then show "objective_value m v = objective_value m v'"
    unfolding objective_value_def by (rule arg_cong)
qed

lemma valuations_complete:
  assumes "list_all (\<lambda>(x, lo, hi). lo \<le> v x \<and> v x \<le> hi) vs"
  shows "\<exists>v' \<in> set (valuations vs). \<forall>x \<in> fst ` set vs. v' x = v x"
  using assms
proof (induction vs)
  case Nil
  then show ?case by simp
next
  case (Cons d vs)
  obtain x lo hi where d: "d = (x, lo, hi)" by (cases d)
  from Cons.prems d have x: "lo \<le> v x" "v x \<le> hi" and rest: "list_all (\<lambda>(x, lo, hi). lo \<le> v x \<and> v x \<le> hi) vs"
    by simp_all
  from Cons.IH[OF rest] obtain v' where v': "v' \<in> set (valuations vs)" "\<forall>y \<in> fst ` set vs. v' y = v y"
    by blast
  have "v'(x := v x) \<in> set (valuations (d # vs))"
    using v'(1) x by (auto simp: d intro!: bexI[of _ v'])
  moreover have "\<forall>y \<in> fst ` set (d # vs). (v'(x := v x)) y = v y"
    using v'(2) by (auto simp: d)
  ultimately show ?case by blast
qed

lemma foldl_better:
  "foldl (better m) b vs \<in> set (b # vs)
   \<and> (\<forall>v \<in> set (b # vs). objective_value m v \<le> objective_value m (foldl (better m) b vs))"
proof (induction vs arbitrary: b)
  case Nil
  then show ?case by simp
next
  case (Cons a vs)
  from Cons.IH[of "better m b a"] show ?case
    by (auto simp: better_def split: if_splits)
qed

theorem exhaustive_solver_contract:
  assumes wf: "well_formed m"
  shows "Solve_contract exhaustive_solver m"
proof -
  let ?F = "filter (feasible m) (valuations (variables m))"
  have found: "\<exists>v' \<in> set ?F. objective_value m v' = objective_value m v" if "feasible m v" for v
  proof -
    from that have "list_all (\<lambda>(x, lo, hi). lo \<le> v x \<and> v x \<le> hi) (variables m)"
      by (simp add: feasible_def in_domains_def)
    from valuations_complete[OF this] obtain v' where
      v': "v' \<in> set (valuations (variables m))" "\<forall>x \<in> fst ` set (variables m). v' x = v x"
      by blast
    from feasible_agree[OF wf v'(2)] that v'(1) show ?thesis by auto
  qed
  show ?thesis
  proof (cases ?F)
    case Nil
    with found have "\<not> (\<exists>v. feasible m v)" by fastforce
    with Nil show ?thesis by (simp add: Solve_contract_def exhaustive_solver_def)
  next
    case (Cons b vs)
    let ?best = "foldl (better m) b vs"
    from foldl_better[of m b vs] Cons have mem: "?best \<in> set ?F"
      and best: "\<forall>v \<in> set ?F. objective_value m v \<le> objective_value m ?best"
      by simp_all
    from mem have fb: "feasible m ?best" by simp
    have "\<forall>v. feasible m v \<longrightarrow> objective_value m v \<le> objective_value m ?best"
      using found best by metis
    with fb Cons show ?thesis
      by (auto simp: Solve_contract_def exhaustive_solver_def)
  qed
qed

lemma exhaustive_solver_build_model:
  "distinct (map fst (students p)) \<Longrightarrow> Solve_contract exhaustive_solver (fst (build_model p))"
  by (rule exhaustive_solver_contract) (rule well_formed_build_model)

section \<open>Reading the solution\<close>

lemma inner_loop:
  "foldl (\<lambda>solution (topic, x). if BooleanValue val x then AList.update s topic solution else solution)
     sol (map (\<lambda>t. (t, Thesis s t)) T)
   = (case filter (\<lambda>t. BooleanValue val (Thesis s t)) T of
        [] \<Rightarrow> sol | ts \<Rightarrow> AList.update s (last ts) sol)"
  by (induction T arbitrary: sol) (auto split: list.splits)

lemma outer_loop:
  assumes "distinct (map fst S)"
    and "\<forall>(s, votes) \<in> set S. filter (\<lambda>t. BooleanValue val (Thesis s t)) T \<noteq> []"
    and "fst ` set acc \<inter> fst ` set S = {}"
  shows "foldl (\<lambda>solution (student, topics).
              foldl (\<lambda>solution (topic, x).
                       if BooleanValue val x then AList.update student topic solution
                       else solution)
                solution topics)
       acc (map (\<lambda>(s, votes). (s, map (\<lambda>t. (t, Thesis s t)) T)) S)
     = acc @ map (\<lambda>(s, votes). (s, chosen val T s)) S"
  using assms
proof (induction S arbitrary: acc)
  case Nil
  then show ?case by simp
next
  case (Cons sv S)
  obtain s votes where sv: "sv = (s, votes)" by (cases sv)
  from Cons.prems(2) sv have ne: "filter (\<lambda>t. BooleanValue val (Thesis s t)) T \<noteq> []" by simp
  from Cons.prems(3) sv have fresh: "s \<notin> fst ` set acc" by auto
  have step: "foldl (\<lambda>solution (topic, x). if BooleanValue val x then AList.update s topic solution else solution)
     acc (map (\<lambda>t. (t, Thesis s t)) T) = acc @ [(s, chosen val T s)]"
    using ne fresh by (simp add: inner_loop chosen_def update_fresh split: list.splits)
  have "fst ` set (acc @ [(s, chosen val T s)]) \<inter> fst ` set S = {}"
    using Cons.prems(1,3) sv by auto
  with Cons.IH[of "acc @ [(s, chosen val T s)]"] Cons.prems(1,2)
  show ?case by (simp add: sv step)
qed

lemma read_solution_build_model:
  assumes "distinct (map fst (students p))"
    and "\<forall>(s, votes) \<in> set (students p).
           filter (\<lambda>t. BooleanValue val (Thesis s t)) [0 .. topics_count p - 1] \<noteq> []"
  shows "read_solution val (snd (build_model p))
     = map (\<lambda>(s, votes). (s, chosen val [0 .. topics_count p - 1] s)) (students p)"
  unfolding read_solution_def snd_build_model
  using outer_loop[OF assms(1,2), of "[]"] by simp

lemma chosen_unique:
  assumes "length (filter (\<lambda>t. BooleanValue val (Thesis s t)) T) = 1"
  shows "chosen val T s \<in> set T"
    and "BooleanValue val (Thesis s (chosen val T s))"
    and "\<And>t. t \<in> set T \<Longrightarrow> BooleanValue val (Thesis s t) \<Longrightarrow> t = chosen val T s"
proof -
  from assms obtain c where c: "filter (\<lambda>t. BooleanValue val (Thesis s t)) T = [c]"
    by (auto simp: length_Suc_conv)
  then have ch: "chosen val T s = c" by (simp add: chosen_def)
  have "c \<in> set (filter (\<lambda>t. BooleanValue val (Thesis s t)) T)" by (simp add: c)
  then show "chosen val T s \<in> set T" "BooleanValue val (Thesis s (chosen val T s))"
    by (simp_all add: ch)
  fix t assume "t \<in> set T" "BooleanValue val (Thesis s t)"
  then have "t \<in> set (filter (\<lambda>t. BooleanValue val (Thesis s t)) T)" by simp
  then show "t = chosen val T s" by (simp add: c ch)
qed

text \<open>What a feasible valuation of the built model says about the dict read off it.\<close>

lemma feasible_read_solution:
  assumes feas: "feasible (fst (build_model p)) val"
    and dist: "distinct (map fst (students p))"
  defines "T \<equiv> [0 .. topics_count p - 1]"
  shows "read_solution val (snd (build_model p)) = map (\<lambda>(s, votes). (s, chosen val T s)) (students p)"
    and "\<forall>(s, votes) \<in> set (students p). chosen val T s \<in> set T"
    and "\<forall>t. length (filter (\<lambda>(s, votes). chosen val T s = t) (students p)) \<le> 2"
    and "objective_value (fst (build_model p)) val
           = sum_list (map (\<lambda>(s, votes). topic_value votes (chosen val T s)) (students p))"
proof -
  from feas have one: "\<forall>(s, votes) \<in> set (students p).
        length (filter (\<lambda>t. BooleanValue val (Thesis s t)) T) = 1"
    and dom: "\<forall>(s, votes) \<in> set (students p). \<forall>t \<in> set T. 0 \<le> val (Thesis s t) \<and> val (Thesis s t) \<le> 1"
    and cap: "\<forall>t \<in> set T. sum_list (map (\<lambda>(s, votes). val (Thesis s t)) (students p)) \<le> 2"
    and joy: "\<forall>(s, votes) \<in> set (students p). \<forall>t \<in> set T.
         BooleanValue val (Thesis s t) \<longrightarrow> val (Joy s) = topic_value votes t"
    unfolding feasible_build_model[OF dist] T_def by blast+
  from one have ne: "\<forall>(s, votes) \<in> set (students p).
      filter (\<lambda>t. BooleanValue val (Thesis s t)) [0 .. topics_count p - 1] \<noteq> []"
    unfolding T_def by fastforce
  show "read_solution val (snd (build_model p)) = map (\<lambda>(s, votes). (s, chosen val T s)) (students p)"
    unfolding T_def by (rule read_solution_build_model[OF dist ne])
  show inT: "\<forall>(s, votes) \<in> set (students p). chosen val T s \<in> set T"
    using one chosen_unique(1) by fastforce
  have ind: "val (Thesis s t) = (if chosen val T s = t then 1 else 0)"
    if "(s, votes) \<in> set (students p)" "t \<in> set T" for s votes t
  proof -
    from one that(1) have l: "length (filter (\<lambda>t. BooleanValue val (Thesis s t)) T) = 1" by auto
    from dom that have d: "0 \<le> val (Thesis s t)" "val (Thesis s t) \<le> 1" by auto
    show ?thesis
    proof (cases "chosen val T s = t")
      case True
      with chosen_unique(2)[OF l] have "val (Thesis s t) \<noteq> 0" by (simp add: BooleanValue_def)
      with d True show ?thesis by simp
    next
      case False
      with chosen_unique(3)[OF l that(2)] have "\<not> BooleanValue val (Thesis s t)" by blast
      with False show ?thesis by (simp add: BooleanValue_def)
    qed
  qed
  show "\<forall>t. length (filter (\<lambda>(s, votes). chosen val T s = t) (students p)) \<le> 2"
  proof
    fix t
    show "length (filter (\<lambda>(s, votes). chosen val T s = t) (students p)) \<le> 2"
    proof (cases "t \<in> set T")
      case True
      have "map (\<lambda>(s, votes). val (Thesis s t)) (students p)
          = map (\<lambda>(s, votes). if chosen val T s = t then 1 else 0) (students p)"
        by (rule map_cong) (auto simp: ind[OF _ True])
      then have "sum_list (map (\<lambda>(s, votes). val (Thesis s t)) (students p))
          = sum_list (map (\<lambda>(s, votes). if chosen val T s = t then 1 else 0) (students p))"
        by (rule arg_cong)
      also have "\<dots> = int (length (filter (\<lambda>(s, votes). chosen val T s = t) (students p)))"
        using sum_list_indicator[of "\<lambda>(s, votes). chosen val T s = t" "students p"]
        by (simp only: case_prod_unfold)
      finally show ?thesis using cap True by auto
    next
      case False
      with inT have "filter (\<lambda>(s, votes). chosen val T s = t) (students p) = []"
        by (auto simp: filter_empty_conv)
      then show ?thesis by simp
    qed
  qed
  have "map (\<lambda>(s, votes). val (Joy s)) (students p)
      = map (\<lambda>(s, votes). topic_value votes (chosen val T s)) (students p)"
  proof (rule map_cong)
    fix sv assume sv: "sv \<in> set (students p)"
    obtain s votes where [simp]: "sv = (s, votes)" by (cases sv)
    from one sv have l: "length (filter (\<lambda>t. BooleanValue val (Thesis s t)) T) = 1" by auto
    from joy sv chosen_unique(1,2)[OF l]
    show "(case sv of (s, votes) \<Rightarrow> val (Joy s)) = (case sv of (s, votes) \<Rightarrow> topic_value votes (chosen val T s))"
      by auto
  qed simp
  then have "sum_list (map (\<lambda>(s, votes). val (Joy s)) (students p))
      = sum_list (map (\<lambda>(s, votes). topic_value votes (chosen val T s)) (students p))"
    by (rule arg_cong)
  then show "objective_value (fst (build_model p)) val
           = sum_list (map (\<lambda>(s, votes). topic_value votes (chosen val T s)) (students p))"
    by (simp only: objective_build_model)
qed


lemma feasible_gives_assignment:
  assumes feas: "feasible (fst (build_model p)) val"
    and dist: "distinct (map fst (students p))"
  defines "sol \<equiv> read_solution val (snd (build_model p))"
  shows "feasible_assignment p (map_of sol)"
    and "total_reward p (map_of sol) = objective_value (fst (build_model p)) val"
proof -
  let ?T = "[0 .. topics_count p - 1]"
  note fr = feasible_read_solution[OF feas dist]
  have look: "map_of sol s = Some (chosen val ?T s)" if "(s, votes) \<in> set (students p)" for s votes
    unfolding sol_def fr(1) using that by (rule map_of_map_key)
  have 1: "case map_of sol s of Some t \<Rightarrow> 0 \<le> t \<and> t < topics_count p | None \<Rightarrow> False"
    if "(s, votes) \<in> set (students p)" for s votes
    using fr(2) that look[OF that] by auto
  have 2: "length (filter (\<lambda>(s, votes). map_of sol s = Some t) (students p)) \<le> 2" for t
  proof -
    have "filter (\<lambda>(s, votes). map_of sol s = Some t) (students p)
        = filter (\<lambda>(s, votes). chosen val ?T s = t) (students p)"
      by (rule filter_cong) (auto simp: look)
    with fr(3) show ?thesis by simp
  qed
  from 1 2 show "feasible_assignment p (map_of sol)"
    unfolding feasible_assignment_def list_all_iff by blast
  have "map (\<lambda>(s, votes). case map_of sol s of Some t \<Rightarrow> topic_value votes t | None \<Rightarrow> 0) (students p)
      = map (\<lambda>(s, votes). topic_value votes (chosen val ?T s)) (students p)"
    by (rule map_cong) (auto simp: look)
  then have "total_reward p (map_of sol)
      = sum_list (map (\<lambda>(s, votes). topic_value votes (chosen val ?T s)) (students p))"
    unfolding total_reward_def by (rule arg_cong)
  with fr(4) show "total_reward p (map_of sol) = objective_value (fst (build_model p)) val"
    by simp
qed

section \<open>Assignments as valuations\<close>

lemma objective_valuation_of:
  assumes dist: "distinct (map fst (students p))"
  shows "objective_value (fst (build_model p)) (valuation_of p a) = total_reward p a"
proof -
  have "map (\<lambda>(s, votes). valuation_of p a (Joy s)) (students p)
      = map (\<lambda>(s, votes). case a s of Some t \<Rightarrow> topic_value votes t | None \<Rightarrow> 0) (students p)"
  proof (rule map_cong)
    fix sv assume sv: "sv \<in> set (students p)"
    obtain s votes where [simp]: "sv = (s, votes)" by (cases sv)
    from dist sv have "map_of (students p) s = Some votes" by simp
    then show "(case sv of (s, votes) \<Rightarrow> valuation_of p a (Joy s))
        = (case sv of (s, votes) \<Rightarrow> case a s of Some t \<Rightarrow> topic_value votes t | None \<Rightarrow> 0)"
      by simp
  qed simp
  then have "sum_list (map (\<lambda>(s, votes). valuation_of p a (Joy s)) (students p))
      = sum_list (map (\<lambda>(s, votes). case a s of Some t \<Rightarrow> topic_value votes t | None \<Rightarrow> 0) (students p))"
    by (rule arg_cong)
  then show ?thesis by (simp only: objective_build_model total_reward_def)
qed

lemma feasible_valuation_of:
  assumes fa: "feasible_assignment p a"
    and dist: "distinct (map fst (students p))"
    and dom: "weights_in_domain p"
  shows "feasible (fst (build_model p)) (valuation_of p a)"
proof -
  let ?T = "[0 .. topics_count p - 1]"
  from fa have asg: "\<And>s votes. (s, votes) \<in> set (students p) \<Longrightarrow> \<exists>t. a s = Some t \<and> t \<in> set ?T"
    by (fastforce simp: feasible_assignment_def list_all_iff split: option.splits)
  from fa have cap: "\<And>t. t \<in> set ?T \<Longrightarrow> length (filter (\<lambda>(s, votes). a s = Some t) (students p)) \<le> 2"
    by (simp add: feasible_assignment_def list_all_iff del: set_upto)
  have 1: "\<forall>(s, votes) \<in> set (students p). \<forall>t \<in> set ?T.
         0 \<le> valuation_of p a (Thesis s t) \<and> valuation_of p a (Thesis s t) \<le> 1"
    by simp
  have 2: "\<forall>(s, votes) \<in> set (students p). 0 \<le> valuation_of p a (Joy s) \<and> valuation_of p a (Joy s) \<le> 9"
  proof safe
    fix s votes assume sv: "(s, votes) \<in> set (students p)"
    from dist sv have m: "map_of (students p) s = Some votes" by simp
    from asg[OF sv] obtain t where t: "a s = Some t" "t \<in> set ?T" by blast
    from dom sv t(2) have "0 \<le> topic_value votes t \<and> topic_value votes t \<le> 9"
      unfolding weights_in_domain_def by blast
    then show "0 \<le> valuation_of p a (Joy s)" "valuation_of p a (Joy s) \<le> 9"
      by (simp_all add: m t(1))
  qed
  have 3: "\<forall>(s, votes) \<in> set (students p).
         length (filter (\<lambda>t. BooleanValue (valuation_of p a) (Thesis s t)) ?T) = 1"
  proof safe
    fix s votes assume sv: "(s, votes) \<in> set (students p)"
    from asg[OF sv] obtain t where t: "a s = Some t" "t \<in> set ?T" by blast
    have "filter (\<lambda>t'. BooleanValue (valuation_of p a) (Thesis s t')) ?T = filter (\<lambda>t'. t = t') ?T"
      by (rule filter_cong) (simp_all add: BooleanValue_def t(1))
    then show "length (filter (\<lambda>t. BooleanValue (valuation_of p a) (Thesis s t)) ?T) = 1"
      using filter_eq_singleton[OF distinct_upto t(2)] by simp
  qed
  have 4: "\<forall>t \<in> set ?T. sum_list (map (\<lambda>(s, votes). valuation_of p a (Thesis s t)) (students p)) \<le> 2"
  proof
    fix t assume t: "t \<in> set ?T"
    have "sum_list (map (\<lambda>(s, votes). valuation_of p a (Thesis s t)) (students p))
        = int (length (filter (\<lambda>(s, votes). a s = Some t) (students p)))"
      using sum_list_indicator[of "\<lambda>(s, votes). a s = Some t" "students p"]
      by (simp add: case_prod_unfold)
    with cap[OF t] show "sum_list (map (\<lambda>(s, votes). valuation_of p a (Thesis s t)) (students p)) \<le> 2"
      by simp
  qed
  have 5: "\<forall>(s, votes) \<in> set (students p). \<forall>t \<in> set ?T.
         BooleanValue (valuation_of p a) (Thesis s t) \<longrightarrow> valuation_of p a (Joy s) = topic_value votes t"
  proof safe
    fix s votes t assume sv: "(s, votes) \<in> set (students p)"
      and b: "BooleanValue (valuation_of p a) (Thesis s t)"
    from dist sv have m: "map_of (students p) s = Some votes" by simp
    from b have "a s = Some t" by (simp add: BooleanValue_def split: if_splits)
    then show "valuation_of p a (Joy s) = topic_value votes t" by (simp add: m)
  qed
  from 1 2 3 4 5 show ?thesis unfolding feasible_build_model[OF dist] by blast
qed

lemma pair_up_range:
  "s \<in> set ks \<Longrightarrow> \<exists>u. pair_up ks t s = Some u \<and> t \<le> u \<and> 2 * (u - t) < int (length ks)"
proof (induction ks t rule: pair_up.induct)
  case (3 s1 s2 ss t)
  show ?case
  proof (cases "s = s1 \<or> s = s2")
    case True
    then show ?thesis by auto
  next
    case False
    with 3 obtain u where "pair_up ss (t + 1) s = Some u" "t + 1 \<le> u" "2 * (u - (t + 1)) < int (length ss)"
      by auto
    with False show ?thesis by auto
  qed
qed simp_all

lemma pair_up_capacity:
  "distinct ks \<Longrightarrow> length (filter (\<lambda>s. pair_up ks t s = Some u) ks) \<le> 2"
proof (induction ks t rule: pair_up.induct)
  case (3 s1 s2 ss t)
  have rest: "filter (\<lambda>s. pair_up (s1 # s2 # ss) t s = Some u) ss
      = (if u = t then [] else filter (\<lambda>s. pair_up ss (t + 1) s = Some u) ss)"
  proof (cases "u = t")
    case True
    have "\<And>s. s \<in> set ss \<Longrightarrow> pair_up (s1 # s2 # ss) t s \<noteq> Some u"
    proof -
      fix s assume s: "s \<in> set ss"
      with "3.prems" have "s \<noteq> s1" "s \<noteq> s2" by auto
      moreover from pair_up_range[OF s, of "t + 1"] obtain u' where
        "pair_up ss (t + 1) s = Some u'" "t + 1 \<le> u'" by blast
      ultimately show "pair_up (s1 # s2 # ss) t s \<noteq> Some u" using True by simp
    qed
    then show ?thesis using True by (simp add: filter_empty_conv)
  next
    case False
    have "filter (\<lambda>s. pair_up (s1 # s2 # ss) t s = Some u) ss
        = filter (\<lambda>s. pair_up ss (t + 1) s = Some u) ss"
      using "3.prems" by (intro filter_cong) auto
    with False show ?thesis by simp
  qed
  from "3.prems" have "distinct ss" by simp
  from "3.IH"[OF this] rest "3.prems" show ?case by auto
qed simp_all

lemma feasible_assignment_pair_up:
  assumes dist: "distinct (map fst (students p))"
    and le: "int (length (students p)) \<le> topics_count p * 2"
  shows "feasible_assignment p (pair_up (map fst (students p)) 0)"
proof -
  let ?a = "pair_up (map fst (students p)) 0"
  have 1: "case ?a s of Some t \<Rightarrow> 0 \<le> t \<and> t < topics_count p | None \<Rightarrow> False"
    if "(s, votes) \<in> set (students p)" for s votes
  proof -
    from that have "s \<in> set (map fst (students p))" by force
    from pair_up_range[OF this, of 0] le show ?thesis by auto
  qed
  have 2: "length (filter (\<lambda>(s, votes). ?a s = Some t) (students p)) \<le> 2" for t
  proof -
    have "length (filter (\<lambda>(s, votes). ?a s = Some t) (students p))
        = length (filter (\<lambda>s. ?a s = Some t) (map fst (students p)))"
      by (simp add: filter_map comp_def case_prod_unfold)
    with pair_up_capacity[OF dist, of 0 t] show ?thesis by simp
  qed
  from 1 2 show ?thesis
    unfolding feasible_assignment_def list_all_iff by blast
qed

lemma feasible_assignment_bound:
  assumes "feasible_assignment p a"
  shows "length (students p) \<le> 2 * nat (topics_count p)"
proof -
  let ?T = "[0 .. topics_count p - 1]"
  let ?f = "\<lambda>(s, votes). a s"
  from assms have "\<forall>x \<in> set (students p). \<exists>t \<in> set ?T. ?f x = Some t"
    by (fastforce simp: feasible_assignment_def list_all_iff split: option.splits)
  from length_by_classes[OF distinct_upto this]
  have "length (students p)
      = sum_list (map (\<lambda>t. length (filter (\<lambda>x. ?f x = Some t) (students p))) ?T)" .
  also have "\<dots> \<le> sum_list (map (\<lambda>t. 2) ?T)"
  proof (rule sum_list_mono)
    fix t assume "t \<in> set ?T"
    with assms show "length (filter (\<lambda>x. ?f x = Some t) (students p)) \<le> 2"
      by (simp add: feasible_assignment_def list_all_iff case_prod_unfold del: set_upto)
  qed
  also have "\<dots> = 2 * nat (topics_count p)"
    by (simp add: sum_list_triv)
  finally show ?thesis .
qed

lemma too_many_students:
  assumes "2 * nat (topics_count p) < length (students p)"
  shows "\<not> (\<exists>a. feasible_assignment p a)"
  using assms feasible_assignment_bound[of p] by fastforce

section \<open>\<^verbatim>\<open>solve_model\<close> under the contract\<close>

lemma solve_unfold:
  "solve solver p =
     (case solver (fst (build_model p)) of (status, val) \<Rightarrow>
        if status \<noteq> OPTIMAL then Inl (ValueError ''Optimal solution not found'')
        else Inr (read_solution val (snd (build_model p))))"
  by (simp add: solve_def solve_model_def split: prod.splits)

lemma solve_Inr:
  assumes "Solve_contract solver (fst (build_model p))" and "solve solver p = Inr sol"
  shows "\<exists>val. feasible (fst (build_model p)) val
     \<and> (\<forall>v. feasible (fst (build_model p)) v \<longrightarrow>
           objective_value (fst (build_model p)) v \<le> objective_value (fst (build_model p)) val)
     \<and> sol = read_solution val (snd (build_model p))"
proof -
  obtain status val where r: "solver (fst (build_model p)) = (status, val)"
    by (cases "solver (fst (build_model p))")
  from assms(2) r have "status = OPTIMAL" "sol = read_solution val (snd (build_model p))"
    by (auto simp: solve_unfold split: if_splits)
  with assms(1) r show ?thesis
    by (auto simp: Solve_contract_def split: if_splits)
qed


lemma solve_feasible:
  assumes "Solve_contract solver (fst (build_model p))" and "feasible (fst (build_model p)) v"
  shows "\<exists>sol. solve solver p = Inr sol"
proof -
  obtain status val where r: "solver (fst (build_model p)) = (status, val)"
    by (cases "solver (fst (build_model p))")
  with assms have "status = OPTIMAL" by (auto simp: Solve_contract_def split: if_splits)
  with r show ?thesis by (simp add: solve_unfold)
qed

lemma solve_infeasible:
  assumes "Solve_contract solver (fst (build_model p))" and "\<not> (\<exists>v. feasible (fst (build_model p)) v)"
  shows "solve solver p = Inl (ValueError ''Optimal solution not found'')"
proof -
  obtain status val where r: "solver (fst (build_model p)) = (status, val)"
    by (cases "solver (fst (build_model p))")
  with assms have "status = INFEASIBLE" by (auto simp: Solve_contract_def split: if_splits)
  with r show ?thesis by (simp add: solve_unfold)
qed



lemma solve_two_students:
  "solve exhaustive_solver two_students = Inr [(''a'', 0), (''b'', 0)]"
  by code_simp

section \<open>Properties of validation\<close>

text \<open>
  Claim C5. Constructing a preference set fails exactly when some student's weights do
  not sum to 9; the failure is pydantic's \<^verbatim>\<open>ValidationError\<close> naming at least one
  student of the input. When every student's weights sum to 9 the construction succeeds
  and stores the input as it is.
\<close>

theorem Preferences_init_fails_iff_sum:
  "(if \<forall>(student, val) \<in> set studs. sum_list (map preference val) = 9
    then Preferences_init studs n = Inr \<lparr>students = studs, topics_count = n\<rparr>
    else \<exists>keys. keys \<noteq> [] \<and> set keys \<subseteq> fst ` set studs
           \<and> Preferences_init studs n = Inl (ValidationError keys))"
proof (cases "list_all (\<lambda>(student, val). check_sum val) studs")
  case True
  then show ?thesis
    using Preferences_init_ok [OF True, of n] by (simp add: sums_9_check_sum)
next
  case False
  have "set (map fst (filter (\<lambda>(student, val). \<not> check_sum val) studs)) \<subseteq> fst ` set studs"
    by auto
  then show ?thesis
    using Preferences_init_bad [OF False, of n] False
    by (simp only: sums_9_check_sum if_False) blast
qed

theorem Preferences_init_fails_iff_sum_witness:
  "Preferences_init [(''a'', [\<lparr>topic_id = 0, preference = 9\<rparr>])] 1
     = Inr \<lparr>students = [(''a'', [\<lparr>topic_id = 0, preference = 9\<rparr>])], topics_count = 1\<rparr>
   \<and> Preferences_init [(''a'', [\<lparr>topic_id = 0, preference = 8\<rparr>])] 1
     = Inl (ValidationError [''a''])"
  using Preferences_init_fails_iff_sum [of "[(''a'', [\<lparr>topic_id = 0, preference = 9\<rparr>])]" 1]
    Preferences_init_fails_iff_sum [of "[(''a'', [\<lparr>topic_id = 0, preference = 8\<rparr>])]" 1]
  by (simp add: Preferences_init_def check_sum_def MAX_POINTS_PER_STUDENT_def)

text \<open>
  Claim C6, as stated, does not hold: the constructor never looks at a topic id. A single
  vote for topic 5 with one topic (id 0) is accepted.
\<close>

theorem out_of_range_vote_accepted:
  "\<not> in_range 1 \<lparr>topic_id = 5, preference = 9\<rparr>
   \<and> Preferences_init [(''a'', [\<lparr>topic_id = 5, preference = 9\<rparr>])] 1
     = Inr \<lparr>students = [(''a'', [\<lparr>topic_id = 5, preference = 9\<rparr>])], topics_count = 1\<rparr>"
  by (simp add: in_range_def Preferences_init_def check_sum_def MAX_POINTS_PER_STUDENT_def)

text \<open>
  Claim C6, amended. Topic ids are not checked when a preference set is constructed: an
  input with a vote for an id outside \<open>0, \<dots>, n - 1\<close> is accepted whenever every
  student's weights sum to 9. Such a vote is then ignored: the model built is the one
  built without it.
\<close>

theorem out_of_range_votes_ignored:
  assumes "\<forall>(student, val) \<in> set studs. sum_list (map preference val) = 9"
    and "\<exists>(student, val) \<in> set studs. \<exists>v \<in> set val. \<not> in_range n v"
  shows "Preferences_init studs n = Inr \<lparr>students = studs, topics_count = n\<rparr>
     \<and> fst (build_model \<lparr>students = map (\<lambda>(s, votes). (s, filter (in_range n) votes)) studs,
                          topics_count = n\<rparr>)
       = fst (build_model \<lparr>students = studs, topics_count = n\<rparr>)"
  using assms(1) by (simp add: sums_9_check_sum Preferences_init_ok build_model_in_range)

theorem out_of_range_votes_ignored_witness:
  "Preferences_init [(''a'', [\<lparr>topic_id = 5, preference = 4\<rparr>, \<lparr>topic_id = 0, preference = 5\<rparr>])] 1
     = Inr \<lparr>students = [(''a'', [\<lparr>topic_id = 5, preference = 4\<rparr>, \<lparr>topic_id = 0, preference = 5\<rparr>])],
            topics_count = 1\<rparr>
   \<and> fst (build_model \<lparr>students = [(''a'', [\<lparr>topic_id = 0, preference = 5\<rparr>])], topics_count = 1\<rparr>)
     = fst (build_model \<lparr>students = [(''a'', [\<lparr>topic_id = 5, preference = 4\<rparr>, \<lparr>topic_id = 0, preference = 5\<rparr>])],
                          topics_count = 1\<rparr>)"
  using out_of_range_votes_ignored
    [of "[(''a'', [\<lparr>topic_id = 5, preference = 4\<rparr>, \<lparr>topic_id = 0, preference = 5\<rparr>])]" 1]
  by (simp add: in_range_def)

text \<open>
  Claim C7, as stated, does not hold: the constructor does not compare the topic ids of
  a vote list. Two votes for topic 0 with weights 5 and 4 are accepted.
\<close>

theorem duplicate_vote_accepted:
  "\<not> distinct (map topic_id [\<lparr>topic_id = 0, preference = 5\<rparr>, \<lparr>topic_id = 0, preference = 4\<rparr>])
   \<and> Preferences_init [(''a'', [\<lparr>topic_id = 0, preference = 5\<rparr>, \<lparr>topic_id = 0, preference = 4\<rparr>])] 1
     = Inr \<lparr>students = [(''a'', [\<lparr>topic_id = 0, preference = 5\<rparr>, \<lparr>topic_id = 0, preference = 4\<rparr>])],
            topics_count = 1\<rparr>"
  by (simp add: Preferences_init_def check_sum_def MAX_POINTS_PER_STUDENT_def)

text \<open>
  Claim C7, amended. Duplicate votes are not checked when a preference set is
  constructed: an input in which a student votes twice for the same topic is accepted
  whenever every student's weights sum to 9.
\<close>

theorem duplicate_votes_unchecked:
  assumes "\<forall>(student, val) \<in> set studs. sum_list (map preference val) = 9"
    and "\<exists>(student, val) \<in> set studs. \<not> distinct (map topic_id val)"
  shows "Preferences_init studs n = Inr \<lparr>students = studs, topics_count = n\<rparr>"
  using assms(1) by (simp add: sums_9_check_sum Preferences_init_ok)

theorem duplicate_votes_unchecked_witness:
  "Preferences_init [(''a'', [\<lparr>topic_id = 3, preference = 2\<rparr>, \<lparr>topic_id = 3, preference = 7\<rparr>])] 4
     = Inr \<lparr>students = [(''a'', [\<lparr>topic_id = 3, preference = 2\<rparr>, \<lparr>topic_id = 3, preference = 7\<rparr>])],
            topics_count = 4\<rparr>"
  using duplicate_votes_unchecked
    [of "[(''a'', [\<lparr>topic_id = 3, preference = 2\<rparr>, \<lparr>topic_id = 3, preference = 7\<rparr>])]" 4]
  by simp

text \<open>
  Claim C9. A vote list with negative weights is accepted as long as the weights sum
  to 9: the sign of a weight is not looked at.
\<close>

theorem negative_weights_accepted:
  assumes "\<forall>(student, val) \<in> set studs. sum_list (map preference val) = 9"
    and "\<exists>(student, val) \<in> set studs. \<exists>v \<in> set val. preference v < 0"
  shows "Preferences_init studs n = Inr \<lparr>students = studs, topics_count = n\<rparr>"
  using assms(1) by (simp add: sums_9_check_sum Preferences_init_ok)

theorem negative_weights_accepted_witness:
  "Preferences_init
     [(''a'', [\<lparr>topic_id = 0, preference = - 1\<rparr>, \<lparr>topic_id = 1, preference = 10\<rparr>])] 2
   = Inr \<lparr>students =
            [(''a'', [\<lparr>topic_id = 0, preference = - 1\<rparr>, \<lparr>topic_id = 1, preference = 10\<rparr>])],
          topics_count = 2\<rparr>"
  using negative_weights_accepted
    [of "[(''a'', [\<lparr>topic_id = 0, preference = - 1\<rparr>, \<lparr>topic_id = 1, preference = 10\<rparr>])]" 2]
  by simp

section \<open>Properties of solving\<close>

text \<open>
  Claim C1. For a valid preference set and a solver that meets the contract: when solving
  returns an assignment, the total reward of that assignment is at least the total reward
  of every feasible assignment (each student one topic of the range, no topic more than
  twice).
\<close>

theorem returned_assignment_optimal:
  assumes "valid_preferences p"
    and "Solve_contract solver (fst (build_model p))"
    and "solve solver p = Inr sol"
    and "feasible_assignment p a"
  shows "total_reward p a \<le> total_reward p (map_of sol)"
proof -
  from assms(1) have dist: "distinct (map fst (students p))" and dom: "weights_in_domain p"
    by (simp_all add: valid_preferences_def valid_weights_in_domain)
  from solve_Inr[OF assms(2,3)] obtain val where
    val: "feasible (fst (build_model p)) val"
      "\<forall>v. feasible (fst (build_model p)) v \<longrightarrow>
           objective_value (fst (build_model p)) v \<le> objective_value (fst (build_model p)) val"
      "sol = read_solution val (snd (build_model p))"
    by blast
  have "total_reward p a = objective_value (fst (build_model p)) (valuation_of p a)"
    by (simp add: objective_valuation_of[OF dist])
  also have "\<dots> \<le> objective_value (fst (build_model p)) val"
    using val(2) feasible_valuation_of[OF assms(4) dist dom] by blast
  also have "\<dots> = total_reward p (map_of sol)"
    unfolding val(3) by (simp add: feasible_gives_assignment(2)[OF val(1) dist])
  finally show ?thesis .
qed

theorem returned_assignment_optimal_witness:
  "valid_preferences one_student
   \<and> solve exhaustive_solver one_student = Inr [(''a'', 1)]
   \<and> feasible_assignment one_student [''a'' \<mapsto> 0]
   \<and> total_reward one_student [''a'' \<mapsto> 0] = 3
   \<and> total_reward one_student (map_of [(''a'', 1)]) = 6"
proof -
  have h1: "valid_preferences one_student" by code_simp
  have h2: "Solve_contract exhaustive_solver (fst (build_model one_student))"
    by (rule exhaustive_solver_build_model) code_simp
  have h3: "solve exhaustive_solver one_student = Inr [(''a'', 1)]" by code_simp
  have h4: "feasible_assignment one_student [''a'' \<mapsto> 0]" by code_simp
  have r1: "total_reward one_student [''a'' \<mapsto> 0] = 3" by code_simp
  have r2: "total_reward one_student (map_of [(''a'', 1)]) = 6" by code_simp
  show ?thesis
    using returned_assignment_optimal[OF h1 h2 h3 h4] h1 h3 h4 r1 r2
    by simp
qed

text \<open>
  Claim C2. When solving returns an assignment, the returned dict has exactly the keys of
  the input, each once, each with a topic of the range, and no topic id is the value of
  more than two keys.
\<close>

theorem returned_assignment_complete:
  assumes dist: "distinct (map fst (students p))"
    and "Solve_contract solver (fst (build_model p))"
    and "solve solver p = Inr sol"
  shows "map fst sol = map fst (students p) \<and> distinct (map fst sol)
     \<and> (\<forall>(s, t) \<in> set sol. 0 \<le> t \<and> t < topics_count p)
     \<and> (\<forall>t. length (filter (\<lambda>(s, t'). t' = t) sol) \<le> 2)"
proof -
  let ?T = "[0 .. topics_count p - 1]"
  from solve_Inr[OF assms(2,3)] obtain val where
    val: "feasible (fst (build_model p)) val" "sol = read_solution val (snd (build_model p))"
    by blast
  note fr = feasible_read_solution[OF val(1) dist]
  have sol: "sol = map (\<lambda>(s, votes). (s, chosen val ?T s)) (students p)"
    using fr(1) val(2) by simp
  have keys: "map fst sol = map fst (students p)"
    unfolding sol by (simp add: comp_def case_prod_unfold)
  have rng: "\<forall>(s, t) \<in> set sol. 0 \<le> t \<and> t < topics_count p"
    unfolding sol using fr(2) by auto
  have cap: "length (filter (\<lambda>(s, t'). t' = t) sol) \<le> 2" for t
  proof -
    have "length (filter (\<lambda>(s, t'). t' = t) sol)
        = length (filter (\<lambda>(s, votes). chosen val ?T s = t) (students p))"
      unfolding sol by (simp add: filter_map comp_def case_prod_unfold)
    with fr(3) show ?thesis by simp
  qed
  from keys dist rng cap show ?thesis by simp
qed

theorem returned_assignment_complete_witness:
  "distinct (map fst (students two_students))
   \<and> solve exhaustive_solver two_students = Inr [(''a'', 0), (''b'', 0)]
   \<and> map fst [(''a'', 0::int), (''b'', 0)] = map fst (students two_students)
   \<and> (\<forall>t. length (filter (\<lambda>(s, t'). t' = t) [(''a'', 0::int), (''b'', 0)]) \<le> 2)"
proof -
  have h1: "distinct (map fst (students two_students))" by code_simp
  show ?thesis
    using returned_assignment_complete[OF h1 exhaustive_solver_build_model[OF h1] solve_two_students]
      h1 solve_two_students
    by simp
qed

text \<open>
  Claim C3. A valid preference set with at most \<open>2 * topics_count\<close> students is
  constructed without error, and solving it with a solver that meets the contract returns
  an assignment: no exception is raised.
\<close>

theorem solve_succeeds_within_capacity:
  assumes "valid_preferences p"
    and "int (length (students p)) \<le> topics_count p * 2"
    and "Solve_contract solver (fst (build_model p))"
  shows "Preferences_init (students p) (topics_count p) = Inr p
     \<and> (\<exists>sol. solve solver p = Inr sol)"
proof -
  from assms(1) have dist: "distinct (map fst (students p))" and dom: "weights_in_domain p"
    and sums: "sums_checked p"
    by (simp_all add: valid_preferences_def valid_weights_in_domain)
  from feasible_assignment_pair_up[OF dist assms(2)]
  have "feasible (fst (build_model p)) (valuation_of p (pair_up (map fst (students p)) 0))"
    by (rule feasible_valuation_of[OF _ dist dom])
  with assms(3) have "\<exists>sol. solve solver p = Inr sol" by (rule solve_feasible)
  with sums show ?thesis by (simp add: sums_checked_init)
qed

theorem solve_succeeds_within_capacity_witness:
  "valid_preferences two_students
   \<and> int (length (students two_students)) \<le> topics_count two_students * 2
   \<and> Preferences_init (students two_students) (topics_count two_students) = Inr two_students
   \<and> (\<exists>sol. solve exhaustive_solver two_students = Inr sol)
   \<and> solve exhaustive_solver two_students = Inr [(''a'', 0), (''b'', 0)]"
proof -
  have h1: "valid_preferences two_students" by code_simp
  have h2: "int (length (students two_students)) \<le> topics_count two_students * 2" by code_simp
  have h3: "Solve_contract exhaustive_solver (fst (build_model two_students))"
    by (rule exhaustive_solver_build_model) code_simp
  show ?thesis
    using solve_succeeds_within_capacity[OF h1 h2 h3] h1 h2
      solve_two_students
    by simp
qed

text \<open>
  Claim C4. When no feasible assignment exists, \<^verbatim>\<open>solve_model\<close> raises
  \<^verbatim>\<open>ValueError("Optimal solution not found")\<close>, and that is never what the constructor
  raises for an input it refuses. More students than \<open>2 * topics_count\<close> is such a case
  (\<open>too_many_students\<close>), used for the example.
\<close>

theorem infeasible_is_ValueError:
  assumes dist: "distinct (map fst (students p))"
    and "\<not> (\<exists>a. feasible_assignment p a)"
    and "Solve_contract solver (fst (build_model p))"
  shows "solve solver p = Inl (ValueError ''Optimal solution not found'')
     \<and> (\<forall>studs n. Preferences_init studs n \<noteq> Inl (ValueError ''Optimal solution not found''))"
proof -
  have "\<not> (\<exists>v. feasible (fst (build_model p)) v)"
    using assms(2) feasible_gives_assignment(1)[OF _ dist] by blast
  with assms(3) have "solve solver p = Inl (ValueError ''Optimal solution not found'')"
    by (rule solve_infeasible)
  moreover have "Preferences_init studs n \<noteq> Inl (ValueError ''Optimal solution not found'')" for studs n
    by (simp add: Preferences_init_def split: list.splits)
  ultimately show ?thesis by simp
qed

theorem infeasible_is_ValueError_witness:
  "distinct (map fst (students three_students))
   \<and> 2 * nat (topics_count three_students) < length (students three_students)
   \<and> solve exhaustive_solver three_students = Inl (ValueError ''Optimal solution not found'')"
proof -
  have h1: "distinct (map fst (students three_students))" by code_simp
  have h2: "2 * nat (topics_count three_students) < length (students three_students)" by code_simp
  show ?thesis
    using infeasible_is_ValueError[OF h1 too_many_students[OF h2] exhaustive_solver_build_model[OF h1]]
      h1 h2
    by simp
qed



text \<open>
  Claim C10. With no students, whatever the topic count, the preference set is
  constructed and solving returns the empty dict.
\<close>

theorem no_students_empty_assignment:
  assumes "Solve_contract solver (fst (build_model \<lparr>students = [], topics_count = n\<rparr>))"
  shows "Preferences_init [] n = Inr \<lparr>students = [], topics_count = n\<rparr>
     \<and> solve solver \<lparr>students = [], topics_count = n\<rparr> = Inr []"
proof -
  let ?p = "\<lparr>students = [], topics_count = n\<rparr>"
  have "feasible (fst (build_model ?p)) (\<lambda>x. 0)"
    by (simp add: feasible_build_model)
  from solve_feasible[OF assms this] obtain sol where sol: "solve solver ?p = Inr sol" by blast
  from solve_Inr[OF assms sol] have "sol = []"
    by (auto simp: read_solution_def snd_build_model)
  with sol show ?thesis by (simp add: Preferences_init_def)
qed

theorem no_students_empty_assignment_witness:
  "Preferences_init [] 3 = Inr \<lparr>students = [], topics_count = 3\<rparr>
   \<and> solve exhaustive_solver \<lparr>students = [], topics_count = 3\<rparr> = Inr []"
proof -
  have "Solve_contract exhaustive_solver (fst (build_model \<lparr>students = [], topics_count = 3\<rparr>))"
    by (rule exhaustive_solver_build_model) simp
  from no_students_empty_assignment[OF this] show ?thesis .
qed

section \<open>Weights outside the domain of \<^verbatim>\<open>student2joy\<close>\<close>

text \<open>
  The constructor accepts any weights that sum to 9, but \<^verbatim>\<open>student2joy\<close> ranges over
  0..9, so a topic whose value for a student is negative or above 9 cannot be given to
  that student. With weights 12 and -3 on the only two topics, no solution exists for a
  single student.
\<close>

lemma weight_outside_domain_blocks:
  assumes "Solve_contract solver (fst (build_model blocked_student))"
  shows "Preferences_init (students blocked_student) (topics_count blocked_student) = Inr blocked_student
     \<and> solve solver blocked_student = Inl (ValueError ''Optimal solution not found'')"
proof -
  have "fst (exhaustive_solver (fst (build_model blocked_student))) = INFEASIBLE" by code_simp
  moreover have "Solve_contract exhaustive_solver (fst (build_model blocked_student))"
    by (rule exhaustive_solver_build_model) code_simp
  ultimately have "\<not> (\<exists>v. feasible (fst (build_model blocked_student)) v)"
    by (auto simp: Solve_contract_def split: prod.splits if_splits)
  with assms have "solve solver blocked_student = Inl (ValueError ''Optimal solution not found'')"
    by (rule solve_infeasible)
  moreover have "sums_checked blocked_student" by code_simp
  ultimately show ?thesis by (simp add: sums_checked_init)
qed

end
